theory Spec2Isabelle
  imports Main
begin

section \<open>Strings\<close>

text \<open>
  Strings of the page are modelled as \<open>string\<close>, each \<open>char\<close> standing for one code unit
  in the range 0..255. In that range the white space and line terminators that
  \<^verbatim>\<open>String.prototype.trim\<close> strips are TAB, LF, VT, FF, CR, SPACE and NBSP.
\<close>

definition is_white_space :: "char \<Rightarrow> bool" where
  "is_white_space c = (of_char c \<in> set [9, 10, 11, 12, 13, 32, 160 :: nat])"

definition trim :: "string \<Rightarrow> string" where
  "trim s = rev (dropWhile is_white_space (rev (dropWhile is_white_space s)))"

definition LF :: char where
  "LF = CHR 0x0A"

definition DQ :: char where
  "DQ = CHR 0x22"

section \<open>Data of the page\<close>

text \<open>
  A thrown JavaScript value. The program only ever converts it to a string (in the template
  literal \<^verbatim>\<open>${error}\<close>) or hands it to \<^verbatim>\<open>console.error\<close>, so it is carried as the string
  that conversion gives.
\<close>

datatype thrown = Thrown string

fun to_string :: "thrown \<Rightarrow> string" where
  "to_string (Thrown s) = s"

text \<open>
  An element created by \<^verbatim>\<open>document.createElement('div')\<close>. \<open>node_id\<close> is the identity of
  the node: the handle the program keeps in \<^verbatim>\<open>loadingIndicator\<close>.
\<close>

record element =
  node_id :: nat
  classList :: "string list"
  innerHTML :: string

datatype role = User | Model

fun role_name :: "role \<Rightarrow> string" where
  "role_name User = ''user''"
| "role_name Model = ''model''"

text \<open>
  The two ways \<^verbatim>\<open>await chat.sendMessage(...)\<close> settles: with a response, of which the
  program reads \<^verbatim>\<open>response.text\<close> (\<open>None\<close> when that is undefined: a response without
  a text part), or with a fault.
\<close>

datatype outcome = Resolved "string option" | Rejected thrown

text \<open>
  An async function suspended at \<^verbatim>\<open>await chat.sendMessage(...)\<close>: the submit handler or
  \<^verbatim>\<open>initializeChat\<close>, each holding its own \<^verbatim>\<open>loadingIndicator\<close>.
\<close>

datatype cont = SubmitAwait nat | InitAwait nat

fun indicator :: "cont \<Rightarrow> nat" where
  "indicator (SubmitAwait h) = h"
| "indicator (InitAwait h) = h"

text \<open>What the program does to the outside, in the order it does it.\<close>

datatype effect =
    Replaced "element list"
  | InputSet string
  | Appended element
  | Scrolled nat
  | Removed nat
  | Sent string
  | Logged thrown

record chat_session =
  apiKey :: string
  model :: string
  instruction :: string

record app =
  messageList :: "element list"
  scrollTop :: nat
  chatInput :: string
  next_node :: nat
  chat :: "chat_session option"
  submit_listener :: bool
  awaiting :: "(nat \<times> cont) list"
  uncaught :: "thrown option"
  trace :: "effect list"

record submit_event =
  defaultPrevented :: bool

text \<open>
  The collaborators the program consumes and does not implement: \<^verbatim>\<open>marked.parse\<close>, which
  returns markup for every string and throws when its input is undefined
  (\<open>marked_undefined\<close> is what it throws), and the layout engine's \<^verbatim>\<open>scrollHeight\<close> of
  the message list.
\<close>

record env =
  marked_parse :: "string \<Rightarrow> string"
  marked_undefined :: thrown
  scrollHeight :: "element list \<Rightarrow> nat"

section \<open>Primitive operations\<close>

definition emit :: "effect \<Rightarrow> app \<Rightarrow> app" where
  "emit x s = s\<lparr>trace := trace s @ [x]\<rparr>"

fun sent_of :: "effect \<Rightarrow> string list" where
  "sent_of (Sent m) = [m]"
| "sent_of _ = []"

fun logged_of :: "effect \<Rightarrow> thrown list" where
  "logged_of (Logged e) = [e]"
| "logged_of _ = []"

fun removed_of :: "effect \<Rightarrow> nat list" where
  "removed_of (Removed h) = [h]"
| "removed_of _ = []"

fun appended_of :: "effect \<Rightarrow> element list" where
  "appended_of (Appended e) = [e]"
| "appended_of _ = []"

definition sent :: "effect list \<Rightarrow> string list" where
  "sent tr = concat (map sent_of tr)"

definition console :: "effect list \<Rightarrow> thrown list" where
  "console tr = concat (map logged_of tr)"

definition removals :: "effect list \<Rightarrow> nat list" where
  "removals tr = concat (map removed_of tr)"

definition appends :: "effect list \<Rightarrow> element list" where
  "appends tr = concat (map appended_of tr)"

definition createElement :: "app \<Rightarrow> element \<times> app" where
  "createElement s =
     (\<lparr>node_id = next_node s, classList = [], innerHTML = []\<rparr>,
      s\<lparr>next_node := Suc (next_node s)\<rparr>)"

definition classList_add :: "string list \<Rightarrow> string list \<Rightarrow> string list" where
  "classList_add tokens cs = fold (\<lambda>t acc. if t \<in> set acc then acc else acc @ [t]) tokens cs"

text \<open>\<^verbatim>\<open>appendChild\<close> moves a node that is already a child to the end.\<close>

definition appendChild :: "element \<Rightarrow> app \<Rightarrow> app" where
  "appendChild el s =
     emit (Appended el)
       (s\<lparr>messageList := filter (\<lambda>e. node_id e \<noteq> node_id el) (messageList s) @ [el]\<rparr>)"

definition scroll_to_end :: "env \<Rightarrow> app \<Rightarrow> app" where
  "scroll_to_end E s =
     emit (Scrolled (scrollHeight E (messageList s)))
       (s\<lparr>scrollTop := scrollHeight E (messageList s)\<rparr>)"

text \<open>\<^verbatim>\<open>el.remove()\<close>: detaches the node; nothing happens when it has no parent.\<close>

definition remove :: "nat \<Rightarrow> app \<Rightarrow> app" where
  "remove h s =
     emit (Removed h) (s\<lparr>messageList := filter (\<lambda>e. node_id e \<noteq> h) (messageList s)\<rparr>)"

definition set_input :: "string \<Rightarrow> app \<Rightarrow> app" where
  "set_input v s = emit (InputSet v) (s\<lparr>chatInput := v\<rparr>)"

definition console_error :: "thrown \<Rightarrow> app \<Rightarrow> app" where
  "console_error e s = emit (Logged e) s"

text \<open>
  \<^verbatim>\<open>chat.sendMessage({ message })\<close>: the request goes out and the caller is suspended until
  it settles. Requests are numbered in the order they are issued.
\<close>

definition sendMessage :: "string \<Rightarrow> cont \<Rightarrow> app \<Rightarrow> app" where
  "sendMessage message k s =
     emit (Sent message) (s\<lparr>awaiting := awaiting s @ [(length (sent (trace s)), k)]\<rparr>)"

section \<open>Chat UI functions\<close>

text \<open>\<^verbatim>\<open>marked.parse(text)\<close>, where \<open>text\<close> is a string or undefined.\<close>

definition parse :: "env \<Rightarrow> string option \<Rightarrow> thrown + string" where
  "parse E text =
     (case text of None \<Rightarrow> Inl (marked_undefined E) | Some t \<Rightarrow> Inr (marked_parse E t))"

text \<open>
  The parameter is declared \<^verbatim>\<open>text: string\<close>, and the caller that passes
  \<^verbatim>\<open>response.text\<close> may pass undefined. When \<^verbatim>\<open>marked.parse\<close> throws, the function is
  left with the element created and not appended.
\<close>

definition renderMessage ::
  "env \<Rightarrow> role \<Rightarrow> string option \<Rightarrow> app \<Rightarrow> (thrown + element) \<times> app" where
  "renderMessage E r text s =
     (let (messageEl, s) = createElement s;
          messageEl = messageEl\<lparr>classList :=
            classList_add [''message'', role_name r @ ''-message''] (classList messageEl)\<rparr>
      in case parse E text of
           Inl error \<Rightarrow> (Inl error, s)
         | Inr html \<Rightarrow>
             let messageEl = messageEl\<lparr>innerHTML := html\<rparr>;
                 s = appendChild messageEl s;
                 s = scroll_to_end E s
             in (Inr messageEl, s))"

definition renderLoadingIndicator :: "env \<Rightarrow> app \<Rightarrow> element \<times> app" where
  "renderLoadingIndicator E s =
     (let (loadingEl, s) = createElement s;
          loadingEl = loadingEl\<lparr>classList :=
            classList_add [''message'', ''model-message'', ''loading''] (classList loadingEl)\<rparr>;
          loadingEl = loadingEl\<lparr>innerHTML := ''Thinking...''\<rparr>;
          s = appendChild loadingEl s;
          s = scroll_to_end E s
      in (loadingEl, s))"

section \<open>Event handlers\<close>

definition submit_error_text :: "thrown \<Rightarrow> string" where
  "submit_error_text error =
     ''**Error:** Something went wrong. Please try again. '' @ [LF, LF] @
     ''```'' @ to_string error @ ''```''"

definition init_error_text :: "thrown \<Rightarrow> string" where
  "init_error_text error =
     ''**Error:** Could not initialize chat. '' @ [LF, LF] @
     ''```'' @ to_string error @ ''```''"

text \<open>
  A fault that leaves an async function through no \<^verbatim>\<open>catch\<close>: the promise of the
  function is rejected and nobody handles it.
\<close>

definition unhandled :: "thrown \<Rightarrow> app \<Rightarrow> app" where
  "unhandled error s = s\<lparr>uncaught := Some error\<rparr>"

text \<open>The submit listener, up to its \<^verbatim>\<open>await chat.sendMessage(...)\<close>.\<close>

definition submit_handler :: "env \<Rightarrow> submit_event \<Rightarrow> app \<Rightarrow> submit_event \<times> app" where
  "submit_handler E e s =
     (let e = e\<lparr>defaultPrevented := True\<rparr>;
          userInput = trim (chatInput s)
      in if userInput = [] then (e, s)
         else
           let s = set_input [] s;
               (rendered, s) = renderMessage E User (Some userInput) s
           in case rendered of
                Inl error \<Rightarrow> (e, unhandled error s)
              | Inr _ \<Rightarrow>
                  let (loadingIndicator, s) = renderLoadingIndicator E s;
                      s = sendMessage userInput (SubmitAwait (node_id loadingIndicator)) s
                  in (e, s))"

text \<open>\<^verbatim>\<open>initializeChat\<close>, up to its \<^verbatim>\<open>await chat.sendMessage(...)\<close>.\<close>

definition initializeChat :: "env \<Rightarrow> app \<Rightarrow> app" where
  "initializeChat E s =
     (let (loadingIndicator, s) = renderLoadingIndicator E s
      in sendMessage ''Hello'' (InitAwait (node_id loadingIndicator)) s)"

text \<open>
  The \<^verbatim>\<open>catch\<close> block of either function. It catches whatever the \<^verbatim>\<open>try\<close> block
  throws: a fault of the request, and a fault of \<^verbatim>\<open>renderMessage\<close> on the reply.
\<close>

definition submit_catch :: "env \<Rightarrow> nat \<Rightarrow> thrown \<Rightarrow> app \<Rightarrow> app" where
  "submit_catch E loadingIndicator error s =
     (let s = remove loadingIndicator s;
          (rendered, s) = renderMessage E Model (Some (submit_error_text error)) s
      in case rendered of
           Inl error' \<Rightarrow> unhandled error' s
         | Inr _ \<Rightarrow> console_error error s)"

definition init_catch :: "env \<Rightarrow> nat \<Rightarrow> thrown \<Rightarrow> app \<Rightarrow> app" where
  "init_catch E loadingIndicator error s =
     (let s = remove loadingIndicator s;
          (rendered, s) = renderMessage E Model (Some (init_error_text error)) s
      in case rendered of
           Inl error' \<Rightarrow> unhandled error' s
         | Inr _ \<Rightarrow> console_error error s)"

text \<open>
  The rest of either function once the request has settled. On a response the \<^verbatim>\<open>try\<close>
  block goes on: the indicator is removed and the reply rendered, and a fault of that
  rendering is caught like a fault of the request.
\<close>

fun resume :: "env \<Rightarrow> cont \<Rightarrow> outcome \<Rightarrow> app \<Rightarrow> app" where
  "resume E (SubmitAwait loadingIndicator) (Resolved text) s =
     (let s = remove loadingIndicator s;
          (rendered, s) = renderMessage E Model text s
      in case rendered of
           Inl error \<Rightarrow> submit_catch E loadingIndicator error s
         | Inr _ \<Rightarrow> s)"
| "resume E (SubmitAwait loadingIndicator) (Rejected error) s =
     submit_catch E loadingIndicator error s"
| "resume E (InitAwait loadingIndicator) (Resolved text) s =
     (let s = remove loadingIndicator s;
          (rendered, s) = renderMessage E Model text s
      in case rendered of
           Inl error \<Rightarrow> init_catch E loadingIndicator error s
         | Inr _ \<Rightarrow> s)"
| "resume E (InitAwait loadingIndicator) (Rejected error) s =
     init_catch E loadingIndicator error s"

section \<open>Main execution\<close>

definition systemInstruction :: string where
  "systemInstruction =
     ''You are a Class 12 Mathematics Tutor.'' @ [LF, LF] @
     ''Rules:'' @ [LF] @
     ''1. Always explain step by step in simple language.'' @ [LF] @
     ''2. Never give the full solution at once.'' @ [LF] @
     ''3. First give **Hint 1** (basic concept).'' @ [LF] @
     ''4. If the student says '' @ [DQ] @ ''more hint'' @ [DQ] @
       '', then give **Hint 2** (partial working).'' @ [LF] @
     ''5. If the student says '' @ [DQ] @ ''Show solution'' @ [DQ] @
       '', then provide the full worked-out solution.'' @ [LF] @
     ''6. After every solution, generate 3 small quiz questions for practice.'' @ [LF] @
     ''7. Always solve problems in the style of PTB Class 12 Math textbook. '' @
       ''This means your tone should be educational, clear, and encouraging. '' @
       ''Use proper mathematical terminology.'' @ [LF] @
     ''8. If a student pastes a problem directly, first repeat the question in a '' @
       ''formatted way before providing the first hint.'' @ [LF] @
     ''9. Start the conversation with a friendly greeting and ask the student to '' @
       ''present a math problem.''"

definition key_error_html :: string where
  "key_error_html =
     [LF] @ ''      <p><strong>Error:</strong> API_KEY environment variable not set.</p>'' @
     [LF] @ ''      <p>Please follow the instructions in the README to set up your API key.</p>'' @
     [LF] @ ''    ''"

text \<open>The page before the module runs: an empty message list and an empty input field.\<close>

definition page :: app where
  "page = \<lparr>messageList = [], scrollTop = 0, chatInput = [], next_node = 0, chat = None,
            submit_listener = False, awaiting = [], uncaught = None, trace = []\<rparr>"

text \<open>
  \<^verbatim>\<open>messageList.innerHTML = `<div class="message model-message">...</div>`\<close>: the children
  are replaced by the one element the markup describes.
\<close>

definition show_key_error :: "app \<Rightarrow> app" where
  "show_key_error s =
     (let (el, s) = createElement s;
          el = el\<lparr>classList := [''message'', ''model-message''], innerHTML := key_error_html\<rparr>
      in emit (Replaced [el]) (s\<lparr>messageList := [el]\<rparr>))"

text \<open>
  The module body, top to bottom. \<open>API_KEY\<close> is \<^verbatim>\<open>process.env.API_KEY\<close>: \<open>None\<close> when
  undefined. \<^verbatim>\<open>!API_KEY\<close> holds for undefined and for the empty string; the \<^verbatim>\<open>throw\<close> in
  that branch ends the evaluation of the module, so nothing below it runs.
\<close>

definition main :: "env \<Rightarrow> string option \<Rightarrow> app" where
  "main E API_KEY =
     (case API_KEY of
        None \<Rightarrow> (show_key_error page)\<lparr>uncaught := Some (Thrown ''Error: API_KEY not set'')\<rparr>
      | Some k \<Rightarrow>
          if k = [] then (show_key_error page)\<lparr>uncaught := Some (Thrown ''Error: API_KEY not set'')\<rparr>
          else
            let s = page\<lparr>chat := Some \<lparr>apiKey = k, model = ''gemini-2.5-flash'',
                                         instruction = systemInstruction\<rparr>\<rparr>;
                s = s\<lparr>submit_listener := True\<rparr>
            in initializeChat E s)"

section \<open>The event loop\<close>

text \<open>
  One task of the event loop, run to the end of its microtasks: the user edits the input
  field, the form's submit event is dispatched, or a pending request settles. A request
  settles once, and only after it was issued. The only point at which either async
  function gives way to another task is its \<^verbatim>\<open>await chat.sendMessage(...)\<close>: the
  \<^verbatim>\<open>await\<close>s around \<^verbatim>\<open>marked.parse\<close> and \<^verbatim>\<open>renderMessage\<close> resume within the same
  task. A submit event that finds no listener runs no code of the page; what the browser
  then does by default is outside the model.
\<close>

datatype event = Typed string | Submitted | Settled nat outcome

definition dispatch_submit :: "env \<Rightarrow> app \<Rightarrow> submit_event \<times> app" where
  "dispatch_submit E s =
     (let e = \<lparr>defaultPrevented = False\<rparr>
      in if submit_listener s then submit_handler E e s else (e, s))"

definition settle :: "env \<Rightarrow> nat \<Rightarrow> outcome \<Rightarrow> app \<Rightarrow> app" where
  "settle E rid out s =
     (case map_of (awaiting s) rid of
        None \<Rightarrow> s
      | Some k \<Rightarrow> resume E k out (s\<lparr>awaiting := filter (\<lambda>p. fst p \<noteq> rid) (awaiting s)\<rparr>))"

fun step :: "env \<Rightarrow> event \<Rightarrow> app \<Rightarrow> app" where
  "step E (Typed v) s = s\<lparr>chatInput := v\<rparr>"
| "step E Submitted s = snd (dispatch_submit E s)"
| "step E (Settled rid out) s = settle E rid out s"

fun run :: "env \<Rightarrow> event list \<Rightarrow> app \<Rightarrow> app" where
  "run E [] s = s"
| "run E (ev # evs) s = run E evs (step E ev s)"

text \<open>Sample collaborators, for evaluating the program on concrete inputs.\<close>

definition sample_env :: env where
  "sample_env =
     \<lparr>marked_parse = (\<lambda>t. ''<p>'' @ t @ ''</p>''),
      marked_undefined = Thrown ''Error: marked(): input parameter is undefined or null'',
      scrollHeight = (\<lambda>els. 40 * length els)\<rparr>"

section \<open>Notions used in the statements\<close>

text \<open>The element \<^verbatim>\<open>renderMessage\<close> builds for a role and a text, as node \<open>n\<close>.\<close>

definition message_el :: "env \<Rightarrow> role \<Rightarrow> string \<Rightarrow> nat \<Rightarrow> element" where
  "message_el E r text n =
     \<lparr>node_id = n, classList = [''message'', role_name r @ ''-message''],
      innerHTML = marked_parse E text\<rparr>"

text \<open>The element \<^verbatim>\<open>renderLoadingIndicator\<close> builds, as node \<open>n\<close>.\<close>

definition loading_el :: "nat \<Rightarrow> element" where
  "loading_el n =
     \<lparr>node_id = n, classList = [''message'', ''model-message'', ''loading''],
      innerHTML = ''Thinking...''\<rparr>"

text \<open>The element the markup of the credential error describes.\<close>

definition key_error_el :: element where
  "key_error_el =
     \<lparr>node_id = 0, classList = [''message'', ''model-message''], innerHTML = key_error_html\<rparr>"

definition is_loading :: "element \<Rightarrow> bool" where
  "is_loading e = (''loading'' \<in> set (classList e))"

definition is_user :: "element \<Rightarrow> bool" where
  "is_user e = (''user-message'' \<in> set (classList e))"

definition is_model :: "element \<Rightarrow> bool" where
  "is_model e = (''model-message'' \<in> set (classList e))"

text \<open>The loading indicators appended so far, and the handles of the suspended functions.\<close>

definition indicators :: "effect list \<Rightarrow> element list" where
  "indicators tr = filter is_loading (appends tr)"

definition handles :: "app \<Rightarrow> nat list" where
  "handles s = map (\<lambda>p. indicator (snd p)) (awaiting s)"

text \<open>The effects of the steps that lead from \<open>s\<close> to \<open>s'\<close>.\<close>

definition new_effects :: "app \<Rightarrow> app \<Rightarrow> effect list" where
  "new_effects s s' = drop (length (trace s)) (trace s')"

text \<open>
  The fault the \<^verbatim>\<open>catch\<close> block of a settled request receives, if it runs: the fault of
  the request, or what \<^verbatim>\<open>marked.parse\<close> throws on a reply without text.
\<close>

fun caught :: "env \<Rightarrow> outcome \<Rightarrow> thrown option" where
  "caught E (Resolved (Some text)) = None"
| "caught E (Resolved None) = Some (marked_undefined E)"
| "caught E (Rejected error) = Some error"

fun error_text :: "cont \<Rightarrow> thrown \<Rightarrow> string" where
  "error_text (SubmitAwait h) error = submit_error_text error"
| "error_text (InitAwait h) error = init_error_text error"

text \<open>The text a settled request puts into its model message.\<close>

fun reply_text :: "env \<Rightarrow> cont \<Rightarrow> outcome \<Rightarrow> string" where
  "reply_text E k (Resolved (Some text)) = text"
| "reply_text E k (Resolved None) = error_text k (marked_undefined E)"
| "reply_text E k (Rejected error) = error_text k error"

text \<open>
  The node of that message, \<open>n\<close> being the next node when the request settles: on a reply
  without text the element created for the reply is dropped and the message is the node
  after it.
\<close>

fun reply_node :: "outcome \<Rightarrow> nat \<Rightarrow> nat" where
  "reply_node (Resolved None) n = Suc n"
| "reply_node out n = n"

text \<open>
  The calls of \<^verbatim>\<open>remove()\<close> a settled request makes on its indicator \<open>h\<close>: one in the
  \<^verbatim>\<open>try\<close> block on a response, one in the \<^verbatim>\<open>catch\<close> block whenever that runs.
\<close>

fun remove_calls :: "outcome \<Rightarrow> nat \<Rightarrow> effect list" where
  "remove_calls (Resolved None) h = [Removed h, Removed h]"
| "remove_calls out h = [Removed h]"

text \<open>What a settled request passes to \<^verbatim>\<open>console.error\<close>.\<close>

fun logged :: "env \<Rightarrow> outcome \<Rightarrow> effect list" where
  "logged E (Resolved (Some text)) = []"
| "logged E (Resolved None) = [Logged (marked_undefined E)]"
| "logged E (Rejected error) = [Logged error]"

text \<open>Every \<open>Appended\<close> effect is directly followed by a \<open>Scrolled\<close> effect.\<close>

fun scrolls_after_append :: "effect list \<Rightarrow> bool" where
  "scrolls_after_append [] = True"
| "scrolls_after_append (Appended e # Scrolled n # tr) = scrolls_after_append tr"
| "scrolls_after_append (Appended e # tr) = False"
| "scrolls_after_append (x # tr) = scrolls_after_append tr"

text \<open>
  What the user submitted, read off the events alone: the trimmed value of the input field
  at each submit event, blank ones left out. \<open>v\<close> is the value of the field before the
  first event; a submission that is taken leaves the field empty.
\<close>

fun submissions :: "event list \<Rightarrow> string \<Rightarrow> string list" where
  "submissions [] v = []"
| "submissions (Typed w # evs) v = submissions evs w"
| "submissions (Submitted # evs) v =
     (if trim v = [] then submissions evs v else trim v # submissions evs [])"
| "submissions (Settled rid out # evs) v = submissions evs v"

section \<open>The invariant of the page\<close>

text \<open>
  Nodes are numbered as they are created, so every node in the message list is older than
  the next one to be created.
\<close>

definition fresh :: "app \<Rightarrow> bool" where
  "fresh s = (\<forall>e \<in> set (messageList s). node_id e < next_node s)"

text \<open>
  What holds of the page after every task: the nodes in the list are distinct; the
  indicator of every suspended function is in the list and every indicator in the list
  belongs to a suspended function; pending requests have distinct numbers, all issued, and
  distinct indicators; no indicator is removed while its function is suspended; removed
  nodes are gone; the indicators ever appended are the removed ones and the pending ones,
  each appended once, one for each request sent.
\<close>

definition wf :: "app \<Rightarrow> bool" where
  "wf s \<longleftrightarrow>
     fresh s \<and>
     distinct (map node_id (messageList s)) \<and>
     (\<forall>h \<in> set (handles s). loading_el h \<in> set (messageList s)) \<and>
     (\<forall>e \<in> set (messageList s). is_loading e \<longrightarrow> node_id e \<in> set (handles s)) \<and>
     distinct (map fst (awaiting s)) \<and>
     (\<forall>p \<in> set (awaiting s). fst p < length (sent (trace s))) \<and>
     distinct (handles s) \<and>
     set (removals (trace s)) \<inter> set (handles s) = {} \<and>
     (\<forall>h \<in> set (removals (trace s)). h < next_node s \<and> h \<notin> node_id ` set (messageList s)) \<and>
     set (map node_id (indicators (trace s))) = set (removals (trace s)) \<union> set (handles s) \<and>
     length (indicators (trace s)) = length (sent (trace s)) \<and>
     distinct (map node_id (indicators (trace s)))"

section \<open>Each function as one update of the page\<close>

lemma filter_fresh:
  "\<forall>e \<in> set xs. node_id e < n \<Longrightarrow> filter (\<lambda>e. node_id e \<noteq> n) xs = xs"
  by (induction xs) auto

lemma role_class: "classList_add [''message'', role_name r @ ''-message''] [] = [''message'', role_name r @ ''-message'']"
  by (cases r) (simp_all add: classList_add_def)

lemma renderMessage_eq:
  assumes "fresh s"
  shows "renderMessage E r (Some text) s =
     (Inr (message_el E r text (next_node s)),
      s\<lparr>next_node := Suc (next_node s),
        messageList := messageList s @ [message_el E r text (next_node s)],
        scrollTop := scrollHeight E (messageList s @ [message_el E r text (next_node s)]),
        trace := trace s @ [Appended (message_el E r text (next_node s)),
                            Scrolled (scrollHeight E (messageList s @ [message_el E r text (next_node s)]))]\<rparr>)"
  using assms
  by (simp add: renderMessage_def parse_def createElement_def appendChild_def scroll_to_end_def
      emit_def message_el_def role_class filter_fresh fresh_def Let_def)

lemma renderMessage_undefined:
  "renderMessage E r None s = (Inl (marked_undefined E), s\<lparr>next_node := Suc (next_node s)\<rparr>)"
  by (simp add: renderMessage_def parse_def createElement_def Let_def)

lemma renderLoadingIndicator_eq:
  assumes "fresh s"
  shows "renderLoadingIndicator E s =
     (loading_el (next_node s),
      s\<lparr>next_node := Suc (next_node s),
        messageList := messageList s @ [loading_el (next_node s)],
        scrollTop := scrollHeight E (messageList s @ [loading_el (next_node s)]),
        trace := trace s @ [Appended (loading_el (next_node s)),
                            Scrolled (scrollHeight E (messageList s @ [loading_el (next_node s)]))]\<rparr>)"
  using assms
  by (simp add: renderLoadingIndicator_def createElement_def appendChild_def scroll_to_end_def emit_def
      loading_el_def classList_add_def filter_fresh fresh_def Let_def)

lemma trace_simps [simp]:
  "sent (xs @ ys) = sent xs @ sent ys"
  "console (xs @ ys) = console xs @ console ys"
  "removals (xs @ ys) = removals xs @ removals ys"
  "appends (xs @ ys) = appends xs @ appends ys"
  "indicators (xs @ ys) = indicators xs @ indicators ys"
  "sent [] = []" "console [] = []" "removals [] = []" "appends [] = []" "indicators [] = []"
  "sent (x # xs) = sent_of x @ sent xs"
  "console (x # xs) = logged_of x @ console xs"
  "removals (x # xs) = removed_of x @ removals xs"
  "appends (x # xs) = appended_of x @ appends xs"
  "indicators (x # xs) = filter is_loading (appended_of x) @ indicators xs"
  by (simp_all add: sent_def console_def removals_def appends_def indicators_def)

lemma is_loading_simps [simp]:
  "is_loading (loading_el n)" "\<not> is_loading (message_el E r t n)"
  "node_id (loading_el n) = n" "node_id (message_el E r t n) = n"
  by (cases r; simp add: is_loading_def loading_el_def message_el_def)+

lemma submit_handler_eq:
  assumes "fresh s" "trim (chatInput s) \<noteq> []"
  shows "submit_handler E e s =
    (e\<lparr>defaultPrevented := True\<rparr>,
     s\<lparr>chatInput := [],
       next_node := Suc (Suc (next_node s)),
       messageList := messageList s @
         [message_el E User (trim (chatInput s)) (next_node s), loading_el (Suc (next_node s))],
       scrollTop := scrollHeight E (messageList s @
         [message_el E User (trim (chatInput s)) (next_node s), loading_el (Suc (next_node s))]),
       awaiting := awaiting s @ [(length (sent (trace s)), SubmitAwait (Suc (next_node s)))],
       trace := trace s @
         [InputSet [],
          Appended (message_el E User (trim (chatInput s)) (next_node s)),
          Scrolled (scrollHeight E (messageList s @
            [message_el E User (trim (chatInput s)) (next_node s)])),
          Appended (loading_el (Suc (next_node s))),
          Scrolled (scrollHeight E (messageList s @
            [message_el E User (trim (chatInput s)) (next_node s), loading_el (Suc (next_node s))])),
          Sent (trim (chatInput s))]\<rparr>)"
proof -
  define t where "t = trim (chatInput s)"
  define s1 where "s1 = set_input [] s"
  define s2 where "s2 = snd (renderMessage E User (Some t) s1)"
  define s3 where "s3 = snd (renderLoadingIndicator E s2)"
  have f1: "fresh s1" using assms(1) by (simp add: s1_def fresh_def set_input_def emit_def)
  have r2: "renderMessage E User (Some t) s1 = (Inr (message_el E User t (next_node s1)), s2)"
    unfolding s2_def by (simp add: renderMessage_eq [OF f1])
  have e2: "s2 = s\<lparr>chatInput := [], next_node := Suc (next_node s),
       messageList := messageList s @ [message_el E User t (next_node s)],
       scrollTop := scrollHeight E (messageList s @ [message_el E User t (next_node s)]),
       trace := trace s @ [InputSet [], Appended (message_el E User t (next_node s)),
          Scrolled (scrollHeight E (messageList s @ [message_el E User t (next_node s)]))]\<rparr>"
    unfolding s2_def by (simp add: renderMessage_eq [OF f1]) (simp add: s1_def set_input_def emit_def)
  have f2: "fresh s2" using assms(1) by (auto simp add: e2 fresh_def less_Suc_eq)
  have r3: "renderLoadingIndicator E s2 = (loading_el (next_node s2), s3)"
    unfolding s3_def by (simp add: renderLoadingIndicator_eq [OF f2])
  have e3: "s3 = s\<lparr>chatInput := [], next_node := Suc (Suc (next_node s)),
       messageList := messageList s @ [message_el E User t (next_node s), loading_el (Suc (next_node s))],
       scrollTop := scrollHeight E (messageList s @ [message_el E User t (next_node s), loading_el (Suc (next_node s))]),
       trace := trace s @ [InputSet [], Appended (message_el E User t (next_node s)),
          Scrolled (scrollHeight E (messageList s @ [message_el E User t (next_node s)])),
          Appended (loading_el (Suc (next_node s))),
          Scrolled (scrollHeight E (messageList s @ [message_el E User t (next_node s), loading_el (Suc (next_node s))]))]\<rparr>"
    unfolding s3_def by (simp add: renderLoadingIndicator_eq [OF f2]) (simp add: e2)
  have "submit_handler E e s =
      (e\<lparr>defaultPrevented := True\<rparr>, sendMessage t (SubmitAwait (Suc (next_node s))) s3)"
    using assms(2) r2 r3
    by (simp add: submit_handler_def Let_def t_def [symmetric] s1_def [symmetric] e2)
  then show ?thesis
    by (simp add: sendMessage_def emit_def e3 t_def)
qed

lemma initializeChat_eq:
  assumes "fresh s"
  shows "initializeChat E s =
     s\<lparr>next_node := Suc (next_node s),
       messageList := messageList s @ [loading_el (next_node s)],
       scrollTop := scrollHeight E (messageList s @ [loading_el (next_node s)]),
       awaiting := awaiting s @ [(length (sent (trace s)), InitAwait (next_node s))],
       trace := trace s @
         [Appended (loading_el (next_node s)),
          Scrolled (scrollHeight E (messageList s @ [loading_el (next_node s)])),
          Sent ''Hello'']\<rparr>"
  by (simp add: initializeChat_def renderLoadingIndicator_eq [OF assms] sendMessage_def emit_def)

lemma fresh_remove: "fresh s \<Longrightarrow> fresh (remove h s)"
  by (simp add: fresh_def remove_def emit_def)

lemma submit_catch_eq:
  assumes "fresh s"
  shows "submit_catch E h error s =
     s\<lparr>next_node := Suc (next_node s),
       messageList := filter (\<lambda>e. node_id e \<noteq> h) (messageList s) @
         [message_el E Model (submit_error_text error) (next_node s)],
       scrollTop := scrollHeight E (filter (\<lambda>e. node_id e \<noteq> h) (messageList s) @
         [message_el E Model (submit_error_text error) (next_node s)]),
       trace := trace s @
         [Removed h,
          Appended (message_el E Model (submit_error_text error) (next_node s)),
          Scrolled (scrollHeight E (filter (\<lambda>e. node_id e \<noteq> h) (messageList s) @
            [message_el E Model (submit_error_text error) (next_node s)])),
          Logged error]\<rparr>"
  by (simp add: submit_catch_def Let_def renderMessage_eq [OF fresh_remove [OF assms]])
     (simp add: remove_def emit_def console_error_def)

lemma init_catch_eq:
  assumes "fresh s"
  shows "init_catch E h error s =
     s\<lparr>next_node := Suc (next_node s),
       messageList := filter (\<lambda>e. node_id e \<noteq> h) (messageList s) @
         [message_el E Model (init_error_text error) (next_node s)],
       scrollTop := scrollHeight E (filter (\<lambda>e. node_id e \<noteq> h) (messageList s) @
         [message_el E Model (init_error_text error) (next_node s)]),
       trace := trace s @
         [Removed h,
          Appended (message_el E Model (init_error_text error) (next_node s)),
          Scrolled (scrollHeight E (filter (\<lambda>e. node_id e \<noteq> h) (messageList s) @
            [message_el E Model (init_error_text error) (next_node s)])),
          Logged error]\<rparr>"
  by (simp add: init_catch_def Let_def renderMessage_eq [OF fresh_remove [OF assms]])
     (simp add: remove_def emit_def console_error_def)

lemma try_eq:
  assumes "fresh s"
  shows "renderMessage E Model (Some t) (remove h s) =
     (Inr (message_el E Model t (next_node s)),
      s\<lparr>next_node := Suc (next_node s),
        messageList := filter (\<lambda>e. node_id e \<noteq> h) (messageList s) @
          [message_el E Model t (next_node s)],
        scrollTop := scrollHeight E (filter (\<lambda>e. node_id e \<noteq> h) (messageList s) @
          [message_el E Model t (next_node s)]),
        trace := trace s @
          [Removed h,
           Appended (message_el E Model t (next_node s)),
           Scrolled (scrollHeight E (filter (\<lambda>e. node_id e \<noteq> h) (messageList s) @
             [message_el E Model t (next_node s)]))]\<rparr>)"
  by (simp add: renderMessage_eq [OF fresh_remove [OF assms]])
     (simp add: remove_def emit_def)

lemma fresh_dropped:
  "fresh s \<Longrightarrow> fresh ((remove h s)\<lparr>next_node := Suc (next_node (remove h s))\<rparr>)"
  by (auto simp add: fresh_def remove_def emit_def less_Suc_eq)

lemma resume_eq:
  assumes "fresh s"
  shows "resume E k out s =
     s\<lparr>next_node := Suc (reply_node out (next_node s)),
       messageList := filter (\<lambda>e. node_id e \<noteq> indicator k) (messageList s) @
         [message_el E Model (reply_text E k out) (reply_node out (next_node s))],
       scrollTop := scrollHeight E (filter (\<lambda>e. node_id e \<noteq> indicator k) (messageList s) @
         [message_el E Model (reply_text E k out) (reply_node out (next_node s))]),
       trace := trace s @ remove_calls out (indicator k) @
         [Appended (message_el E Model (reply_text E k out) (reply_node out (next_node s))),
          Scrolled (scrollHeight E (filter (\<lambda>e. node_id e \<noteq> indicator k) (messageList s) @
            [message_el E Model (reply_text E k out) (reply_node out (next_node s))]))] @
         logged E out\<rparr>"
proof (cases out)
  case (Rejected error)
  then show ?thesis
    by (cases k) (simp_all add: submit_catch_eq [OF assms] init_catch_eq [OF assms])
next
  case (Resolved reply)
  show ?thesis
  proof (cases reply)
    case (Some t)
    with Resolved show ?thesis
      by (cases k) (simp_all add: Let_def try_eq [OF assms])
  next
    case None
    note c = submit_catch_eq [OF fresh_dropped [OF assms]] init_catch_eq [OF fresh_dropped [OF assms]]
    from Resolved None show ?thesis
      by (cases k; simp add: Let_def renderMessage_undefined c) (simp_all add: remove_def emit_def)
  qed
qed

lemma awaiting_split:
  assumes "distinct (map fst xs)" "map_of xs rid = Some k"
  shows "\<exists>ys zs. xs = ys @ (rid, k) # zs \<and> filter (\<lambda>p. fst p \<noteq> rid) xs = ys @ zs"
proof -
  from assms(2) have "(rid, k) \<in> set xs" by (rule map_of_SomeD)
  then obtain ys zs where xs: "xs = ys @ (rid, k) # zs" by (auto dest: split_list)
  with assms(1) have "rid \<notin> fst ` set ys" "rid \<notin> fst ` set zs" by auto
  then have "filter (\<lambda>p. fst p \<noteq> rid) ys = ys" "filter (\<lambda>p. fst p \<noteq> rid) zs = zs"
    by (auto simp add: filter_id_conv)
  with xs show ?thesis by (intro exI [of _ ys] exI [of _ zs]) simp
qed

lemma wf_page_key_error: "wf ((show_key_error page)\<lparr>uncaught := u\<rparr>)"
  by (simp add: wf_def fresh_def handles_def show_key_error_def page_def createElement_def
      emit_def is_loading_def Let_def)

lemma fresh_page: "fresh (page\<lparr>chat := c, submit_listener := b\<rparr>)"
  by (simp add: fresh_def page_def)

lemma main_eq:
  assumes "k \<noteq> []"
  shows "main E (Some k) =
     page\<lparr>chat := Some \<lparr>apiKey = k, model = ''gemini-2.5-flash'', instruction = systemInstruction\<rparr>,
          submit_listener := True,
          next_node := 1,
          messageList := [loading_el 0],
          scrollTop := scrollHeight E [loading_el 0],
          awaiting := [(0, InitAwait 0)],
          trace := [Appended (loading_el 0), Scrolled (scrollHeight E [loading_el 0]), Sent ''Hello'']\<rparr>"
  using assms by (simp add: main_def initializeChat_eq [OF fresh_page]) (simp add: page_def)

lemma wf_main: "wf (main E key)"
proof (cases "key = None \<or> key = Some []")
  case True
  then show ?thesis by (auto simp add: main_def wf_page_key_error)
next
  case False
  then obtain k where "key = Some k" "k \<noteq> []" by auto
  then show ?thesis
    by (simp add: main_eq wf_def fresh_def handles_def page_def)
qed

lemma wf_submit:
  assumes "wf s" "trim (chatInput s) \<noteq> []"
  shows "wf (snd (submit_handler E e s))"
proof -
  have f: "fresh s" using assms(1) by (simp add: wf_def)
  have lt: "\<forall>h \<in> set (handles s). h < next_node s"
  proof
    fix h assume "h \<in> set (handles s)"
    with assms(1) have "loading_el h \<in> set (messageList s)" by (simp add: wf_def)
    with f have "node_id (loading_el h) < next_node s" unfolding fresh_def by blast
    then show "h < next_node s" by simp
  qed
  show ?thesis
    using assms(1) lt
    unfolding submit_handler_eq [OF f assms(2)] snd_conv
    by (auto simp add: wf_def fresh_def handles_def less_Suc_eq)
qed

lemma settle_eq:
  assumes "fresh s" "map_of (awaiting s) rid = Some k"
  shows "settle E rid out s =
     s\<lparr>awaiting := filter (\<lambda>p. fst p \<noteq> rid) (awaiting s),
       next_node := Suc (reply_node out (next_node s)),
       messageList := filter (\<lambda>e. node_id e \<noteq> indicator k) (messageList s) @
         [message_el E Model (reply_text E k out) (reply_node out (next_node s))],
       scrollTop := scrollHeight E (filter (\<lambda>e. node_id e \<noteq> indicator k) (messageList s) @
         [message_el E Model (reply_text E k out) (reply_node out (next_node s))]),
       trace := trace s @ remove_calls out (indicator k) @
         [Appended (message_el E Model (reply_text E k out) (reply_node out (next_node s))),
          Scrolled (scrollHeight E (filter (\<lambda>e. node_id e \<noteq> indicator k) (messageList s) @
            [message_el E Model (reply_text E k out) (reply_node out (next_node s))]))] @
         logged E out\<rparr>"
proof -
  have f: "fresh (s\<lparr>awaiting := filter (\<lambda>p. fst p \<noteq> rid) (awaiting s)\<rparr>)"
    using assms(1) by (simp add: fresh_def)
  show ?thesis
    using assms(2) by (simp add: settle_def resume_eq [OF f])
qed

lemma logged_trace [simp]:
  "sent (logged E out) = []" "removals (logged E out) = []" "appends (logged E out) = []"
  "indicators (logged E out) = []" "console (logged E out) = (case caught E out of None \<Rightarrow> [] | Some error \<Rightarrow> [error])"
  by (cases "(E, out)" rule: logged.cases; simp)+

lemma remove_calls_trace [simp]:
  "sent (remove_calls out h) = []" "appends (remove_calls out h) = []"
  "indicators (remove_calls out h) = []" "console (remove_calls out h) = []"
  "set (removals (remove_calls out h)) = {h}"
  by (cases "(out, h)" rule: remove_calls.cases; simp)+

lemma reply_node_bounds [simp]:
  "n \<le> reply_node out n" "reply_node out n \<le> Suc n"
  by (cases "(out, n)" rule: reply_node.cases; simp)+

lemma wf_settle:
  assumes "wf s" "map_of (awaiting s) rid = Some k"
  shows "wf (settle E rid out s)"
proof -
  have f: "fresh s" using assms(1) by (simp add: wf_def)
  from assms(1) have "distinct (map fst (awaiting s))" by (simp add: wf_def)
  from awaiting_split [OF this assms(2)] obtain ys zs where
    aw: "awaiting s = ys @ (rid, k) # zs" "filter (\<lambda>p. fst p \<noteq> rid) (awaiting s) = ys @ zs"
    by blast
  define h where "h = indicator k"
  have hs: "handles s = map (\<lambda>p. indicator (snd p)) ys @ h # map (\<lambda>p. indicator (snd p)) zs"
    by (simp add: handles_def aw h_def)
  have lt: "\<forall>h \<in> set (handles s). h < next_node s"
  proof
    fix h assume "h \<in> set (handles s)"
    with assms(1) have "loading_el h \<in> set (messageList s)" by (simp add: wf_def)
    with f have "node_id (loading_el h) < next_node s" unfolding fresh_def by blast
    then show "h < next_node s" by simp
  qed
  have mem: "loading_el h' \<in> set (messageList s)" if "h' \<in> set (handles s)" for h'
    using assms(1) that by (simp add: wf_def)
  have d: "distinct (handles s)" "set (removals (trace s)) \<inter> set (handles s) = {}"
    using assms(1) by (simp_all add: wf_def)
  have flt: "filter (\<lambda>p. fst p \<noteq> rid) (ys @ (rid, k) # zs) = ys @ zs"
    using aw by simp
  define n where "n = reply_node out (next_node s)"
  have n: "next_node s \<le> n" by (simp add: n_def)
  have lt': "\<forall>h \<in> set (handles s). h < n" using lt n by auto
  have old: "\<forall>e \<in> set (messageList s). node_id e < n"
    using f n by (auto simp add: fresh_def)
  have gone: "\<forall>h \<in> set (removals (trace s)). h < n \<and> h \<notin> node_id ` set (messageList s)"
    using assms(1) n by (auto simp add: wf_def)
  show ?thesis
    unfolding settle_eq [OF f assms(2)] n_def [symmetric]
    using assms(1) lt' old gone mem d
    by (auto simp add: wf_def fresh_def handles_def aw(1) flt h_def [symmetric] less_Suc_eq
        distinct_map_filter simp del: filter_append filter.simps)
qed

lemma submit_handler_blank:
  "trim (chatInput s) = [] \<Longrightarrow> submit_handler E e s = (e\<lparr>defaultPrevented := True\<rparr>, s)"
  by (simp add: submit_handler_def)

lemma wf_step:
  assumes "wf s"
  shows "wf (step E ev s)"
proof (cases ev)
  case (Typed v)
  with assms show ?thesis by (simp add: wf_def fresh_def handles_def)
next
  case Submitted
  show ?thesis
  proof (cases "submit_listener s \<and> trim (chatInput s) \<noteq> []")
    case True
    with assms Submitted show ?thesis by (simp add: dispatch_submit_def Let_def wf_submit)
  next
    case False
    with assms Submitted show ?thesis by (auto simp add: dispatch_submit_def Let_def submit_handler_blank)
  qed
next
  case (Settled rid out)
  show ?thesis
  proof (cases "map_of (awaiting s) rid")
    case None
    with assms Settled show ?thesis by (simp add: settle_def)
  next
    case (Some k)
    with assms Settled show ?thesis by (simp add: wf_settle)
  qed
qed

lemma wf_run: "wf s \<Longrightarrow> wf (run E evs s)"
  by (induction evs arbitrary: s) (simp_all add: wf_step)

lemma listener_step:
  assumes "fresh s"
  shows "submit_listener (step E ev s) = submit_listener s"
proof (cases ev)
  case (Typed v)
  then show ?thesis by simp
next
  case Submitted
  then show ?thesis
    by (cases "trim (chatInput s) = []")
       (simp_all add: dispatch_submit_def Let_def submit_handler_blank submit_handler_eq [OF assms])
next
  case (Settled rid out)
  show ?thesis
  proof (cases "map_of (awaiting s) rid")
    case None
    with Settled show ?thesis by (simp add: settle_def)
  next
    case (Some k)
    with Settled show ?thesis by (simp add: settle_eq [OF assms Some])
  qed
qed

lemma listener_run: "wf s \<Longrightarrow> submit_listener (run E evs s) = submit_listener s"
proof (induction evs arbitrary: s)
  case Nil
  then show ?case by simp
next
  case (Cons ev evs)
  from Cons.prems have "fresh s" by (simp add: wf_def)
  with Cons.IH [OF wf_step [OF Cons.prems]] show ?case by (simp add: listener_step)
qed

lemma reach_wf: "wf (run E evs (main E key))"
  by (rule wf_run [OF wf_main])

lemma reach_listener: "k \<noteq> [] \<Longrightarrow> submit_listener (run E evs (main E (Some k)))"
proof -
  assume k: "k \<noteq> []"
  have "submit_listener (main E (Some k))" by (simp add: main_eq [OF k])
  then show ?thesis by (simp add: listener_run [OF wf_main])
qed

lemma trim_blank: "\<forall>c \<in> set v. is_white_space c \<Longrightarrow> trim v = []"
proof -
  assume "\<forall>c \<in> set v. is_white_space c"
  then have d: "dropWhile is_white_space v = []" by (induction v) simp_all
  show ?thesis unfolding trim_def d by simp
qed

lemma scrolls_append:
  "scrolls_after_append xs \<Longrightarrow> scrolls_after_append ys \<Longrightarrow> scrolls_after_append (xs @ ys)"
  by (induction xs rule: scrolls_after_append.induct) simp_all

lemma scrolls_logged: "scrolls_after_append (logged E out)"
  by (cases "(E, out)" rule: logged.cases) simp_all

lemma scrolls_remove_calls: "scrolls_after_append (remove_calls out h)"
  by (cases "(out, h)" rule: remove_calls.cases) simp_all

lemma scrolls_step:
  assumes "wf s" "scrolls_after_append (trace s)"
  shows "scrolls_after_append (trace (step E ev s))"
proof -
  have f: "fresh s" using assms(1) by (simp add: wf_def)
  show ?thesis
  proof (cases ev)
    case (Typed v)
    with assms(2) show ?thesis by simp
  next
    case Submitted
    show ?thesis
    proof (cases "submit_listener s \<and> trim (chatInput s) \<noteq> []")
      case True
      with Submitted assms(2) show ?thesis
        by (simp add: dispatch_submit_def Let_def submit_handler_eq [OF f] scrolls_append)
    next
      case False
      with Submitted assms(2) show ?thesis
        by (auto simp add: dispatch_submit_def Let_def submit_handler_blank)
    qed
  next
    case (Settled rid out)
    show ?thesis
    proof (cases "map_of (awaiting s) rid")
      case None
      with Settled assms(2) show ?thesis by (simp add: settle_def)
    next
      case (Some k)
      with Settled assms(2) show ?thesis
        by (simp add: settle_eq [OF f Some] scrolls_append scrolls_logged scrolls_remove_calls)
    qed
  qed
qed

lemma scrolls_run:
  "wf s \<Longrightarrow> scrolls_after_append (trace s) \<Longrightarrow> scrolls_after_append (trace (run E evs s))"
  by (induction evs arbitrary: s) (simp_all add: wf_step scrolls_step)

lemma scrolls_main: "scrolls_after_append (trace (main E key))"
proof (cases "key = None \<or> key = Some []")
  case True
  then show ?thesis
    by (auto simp add: main_def show_key_error_def page_def createElement_def emit_def Let_def)
next
  case False
  then obtain k where "key = Some k" "k \<noteq> []" by auto
  then show ?thesis by (simp add: main_eq)
qed

section \<open>Steps and runs\<close>

lemma new_effects_append [simp]: "new_effects s (s'\<lparr>trace := trace s @ xs\<rparr>) = xs"
  by (simp add: new_effects_def)

lemma class_simps [simp]:
  "is_user (message_el E r t n) = (r = User)" "\<not> is_user (loading_el n)"
  "is_model (message_el E r t n) = (r = Model)" "is_model (loading_el n)"
  by (cases r; simp add: is_user_def is_model_def loading_el_def message_el_def)+

lemma el_simps [simp]:
  "innerHTML (message_el E r t n) = marked_parse E t"
  "classList (message_el E r t n) = [''message'', role_name r @ ''-message'']"
  "innerHTML (loading_el n) = ''Thinking...''"
  by (simp_all add: message_el_def loading_el_def)

lemma filter_id_remove1:
  "distinct (map f xs) \<Longrightarrow> x \<in> set xs \<Longrightarrow> filter (\<lambda>e. f e \<noteq> f x) xs = remove1 x xs"
proof (induction xs)
  case Nil
  then show ?case by simp
next
  case (Cons a xs)
  show ?case
  proof (cases "a = x")
    case True
    with Cons.prems have "\<forall>e \<in> set xs. f e \<noteq> f x" by (metis distinct.simps(2) image_eqI list.simps(9) list.set_map)
    then have "filter (\<lambda>e. f e \<noteq> f x) xs = xs" by (simp add: filter_id_conv)
    with True show ?thesis by simp
  next
    case False
    with Cons.prems have "f a \<noteq> f x" by auto
    with Cons False show ?thesis by simp
  qed
qed

lemma pending_indicator:
  assumes "wf s" "map_of (awaiting s) rid = Some c"
  shows "loading_el (indicator c) \<in> set (messageList s)"
    and "filter (\<lambda>e. node_id e \<noteq> indicator c) (messageList s) =
         remove1 (loading_el (indicator c)) (messageList s)"
    and "indicator c < next_node s"
proof -
  from assms(2) have "(rid, c) \<in> set (awaiting s)" by (rule map_of_SomeD)
  then have "indicator c \<in> set (handles s)" by (force simp add: handles_def)
  with assms(1) show m: "loading_el (indicator c) \<in> set (messageList s)" by (simp add: wf_def)
  from assms(1) have "distinct (map node_id (messageList s))" by (simp add: wf_def)
  from filter_id_remove1 [OF this m]
  show "filter (\<lambda>e. node_id e \<noteq> indicator c) (messageList s) =
         remove1 (loading_el (indicator c)) (messageList s)" by simp
  from assms(1) m have "node_id (loading_el (indicator c)) < next_node s"
    unfolding wf_def fresh_def by blast
  then show "indicator c < next_node s" by simp
qed

lemma settle_view:
  assumes "wf s" "map_of (awaiting s) rid = Some c"
  shows "settle E rid out s =
     s\<lparr>awaiting := filter (\<lambda>p. fst p \<noteq> rid) (awaiting s),
       next_node := Suc (reply_node out (next_node s)),
       messageList := remove1 (loading_el (indicator c)) (messageList s) @
         [message_el E Model (reply_text E c out) (reply_node out (next_node s))],
       scrollTop := scrollHeight E (remove1 (loading_el (indicator c)) (messageList s) @
         [message_el E Model (reply_text E c out) (reply_node out (next_node s))]),
       trace := trace s @ remove_calls out (indicator c) @
         [Appended (message_el E Model (reply_text E c out) (reply_node out (next_node s))),
          Scrolled (scrollHeight E (remove1 (loading_el (indicator c)) (messageList s) @
            [message_el E Model (reply_text E c out) (reply_node out (next_node s))]))] @
         logged E out\<rparr>"
proof -
  have f: "fresh s" using assms(1) by (simp add: wf_def)
  show ?thesis
    unfolding settle_eq [OF f assms(2)] pending_indicator(2) [OF assms] ..
qed

lemma settle_gone:
  assumes "wf s" "map_of (awaiting s) rid = Some c"
  shows "indicator c \<notin> node_id ` set (messageList (settle E rid out s))"
proof -
  have f: "fresh s" using assms(1) by (simp add: wf_def)
  have "next_node s \<le> reply_node out (next_node s)" by simp
  with pending_indicator(3) [OF assms] have "indicator c < reply_node out (next_node s)"
    by (rule less_le_trans)
  then show ?thesis
    unfolding settle_eq [OF f assms(2)] by auto
qed

lemma step_cases [consumes 1, case_names Typed Blank Stale Submit Settle]:
  assumes "wf s"
  obtains
    (Typed) v where "ev = Typed v" "step E ev s = s\<lparr>chatInput := v\<rparr>"
  | (Blank) "ev = Submitted" "\<not> submit_listener s \<or> trim (chatInput s) = []"
      "step E ev s = s"
  | (Stale) rid out where "ev = Settled rid out" "map_of (awaiting s) rid = None"
      "step E ev s = s"
  | (Submit) "ev = Submitted" "submit_listener s" "trim (chatInput s) \<noteq> []"
      "step E ev s =
       s\<lparr>chatInput := [],
         next_node := Suc (Suc (next_node s)),
         messageList := messageList s @
           [message_el E User (trim (chatInput s)) (next_node s), loading_el (Suc (next_node s))],
         scrollTop := scrollHeight E (messageList s @
           [message_el E User (trim (chatInput s)) (next_node s), loading_el (Suc (next_node s))]),
         awaiting := awaiting s @ [(length (sent (trace s)), SubmitAwait (Suc (next_node s)))],
         trace := trace s @
           [InputSet [],
            Appended (message_el E User (trim (chatInput s)) (next_node s)),
            Scrolled (scrollHeight E (messageList s @
              [message_el E User (trim (chatInput s)) (next_node s)])),
            Appended (loading_el (Suc (next_node s))),
            Scrolled (scrollHeight E (messageList s @
              [message_el E User (trim (chatInput s)) (next_node s), loading_el (Suc (next_node s))])),
            Sent (trim (chatInput s))]\<rparr>"
  | (Settle) rid c out where "ev = Settled rid out" "map_of (awaiting s) rid = Some c"
      "step E ev s =
       s\<lparr>awaiting := filter (\<lambda>p. fst p \<noteq> rid) (awaiting s),
         next_node := Suc (reply_node out (next_node s)),
         messageList := remove1 (loading_el (indicator c)) (messageList s) @
           [message_el E Model (reply_text E c out) (reply_node out (next_node s))],
         scrollTop := scrollHeight E (remove1 (loading_el (indicator c)) (messageList s) @
           [message_el E Model (reply_text E c out) (reply_node out (next_node s))]),
         trace := trace s @ remove_calls out (indicator c) @
           [Appended (message_el E Model (reply_text E c out) (reply_node out (next_node s))),
            Scrolled (scrollHeight E (remove1 (loading_el (indicator c)) (messageList s) @
              [message_el E Model (reply_text E c out) (reply_node out (next_node s))]))] @
           logged E out\<rparr>"
proof -
  have f: "fresh s" using assms by (simp add: wf_def)
  show thesis
  proof (cases ev)
    case (Typed v)
    then show ?thesis by (intro that(1) [of v]) simp_all
  next
    case Submitted
    show ?thesis
    proof (cases "submit_listener s \<and> trim (chatInput s) \<noteq> []")
      case True
      with Submitted show ?thesis
        by (intro that(4)) (simp_all add: dispatch_submit_def Let_def submit_handler_eq [OF f])
    next
      case False
      with Submitted show ?thesis
        by (intro that(2)) (auto simp add: dispatch_submit_def Let_def submit_handler_blank)
    qed
  next
    case (Settled rid out)
    show ?thesis
    proof (cases "map_of (awaiting s) rid")
      case None
      with Settled show ?thesis by (intro that(3) [of rid out]) (simp_all add: settle_def)
    next
      case (Some c)
      with Settled show ?thesis
        by (intro that(5) [of rid out c]) (simp_all add: settle_view [OF assms Some])
    qed
  qed
qed

lemma filter_remove1_other: "\<not> P x \<Longrightarrow> filter P (remove1 x xs) = filter P xs"
  by (induction xs) auto

lemma sent_run:
  "wf s \<Longrightarrow> submit_listener s \<Longrightarrow>
   sent (trace (run E evs s)) = sent (trace s) @ submissions evs (chatInput s)"
proof (induction evs arbitrary: s)
  case Nil
  then show ?case by simp
next
  case (Cons ev evs)
  have w: "wf (step E ev s)" using Cons.prems(1) by (rule wf_step)
  have l: "submit_listener (step E ev s)"
    using Cons.prems by (simp add: listener_step wf_def)
  note IH = Cons.IH [OF w l]
  from Cons.prems(1) show ?case
  proof (cases rule: step_cases [where ev = ev and E = E])
    case (Typed v)
    with IH show ?thesis by simp
  next
    case Blank
    with IH Cons.prems(2) show ?thesis by simp
  next
    case (Stale rid out)
    with IH show ?thesis by simp
  next
    case Submit
    with IH show ?thesis by simp
  next
    case (Settle rid c out)
    with IH show ?thesis by simp
  qed
qed

lemma user_run:
  "wf s \<Longrightarrow> submit_listener s \<Longrightarrow>
   map innerHTML (filter is_user (messageList (run E evs s))) =
   map innerHTML (filter is_user (messageList s)) @
   map (marked_parse E) (submissions evs (chatInput s))"
proof (induction evs arbitrary: s)
  case Nil
  then show ?case by simp
next
  case (Cons ev evs)
  have w: "wf (step E ev s)" using Cons.prems(1) by (rule wf_step)
  have l: "submit_listener (step E ev s)"
    using Cons.prems by (simp add: listener_step wf_def)
  note IH = Cons.IH [OF w l]
  from Cons.prems(1) show ?case
  proof (cases rule: step_cases [where ev = ev and E = E])
    case (Typed v)
    with IH show ?thesis by simp
  next
    case Blank
    with IH Cons.prems(2) show ?thesis by simp
  next
    case (Stale rid out)
    with IH show ?thesis by simp
  next
    case Submit
    with IH show ?thesis by simp
  next
    case (Settle rid c out)
    with IH show ?thesis by (simp add: filter_remove1_other)
  qed
qed

lemma user_view_step:
  assumes "wf s" "filter is_user (messageList s) = filter is_user (appends (trace s))"
  shows "filter is_user (messageList (step E ev s)) =
         filter is_user (appends (trace (step E ev s)))"
  using assms(1)
proof (cases rule: step_cases [where ev = ev and E = E])
  case (Typed v)
  with assms(2) show ?thesis by simp
next
  case Blank
  with assms(2) show ?thesis by simp
next
  case (Stale rid out)
  with assms(2) show ?thesis by simp
next
  case Submit
  with assms(2) show ?thesis by simp
next
  case (Settle rid c out)
  with assms(2) show ?thesis by (simp add: filter_remove1_other)
qed

lemma user_view_run:
  "wf s \<Longrightarrow> filter is_user (messageList s) = filter is_user (appends (trace s)) \<Longrightarrow>
   filter is_user (messageList (run E evs s)) = filter is_user (appends (trace (run E evs s)))"
  by (induction evs arbitrary: s) (simp_all add: wf_step user_view_step)

lemma halted_run:
  "\<not> submit_listener s \<Longrightarrow> awaiting s = [] \<Longrightarrow>
   run E evs s = s\<lparr>chatInput := chatInput (run E evs s)\<rparr>"
proof (induction evs arbitrary: s)
  case Nil
  then show ?case by simp
next
  case (Cons ev evs)
  show ?case
  proof (cases ev)
    case (Typed v)
    from Cons.IH [of "s\<lparr>chatInput := v\<rparr>"] Cons.prems
    have "run E evs (s\<lparr>chatInput := v\<rparr>) =
          s\<lparr>chatInput := v, chatInput := chatInput (run E evs (s\<lparr>chatInput := v\<rparr>))\<rparr>"
      by simp
    with Typed show ?thesis by simp
  next
    case Submitted
    with Cons show ?thesis by (simp add: dispatch_submit_def)
  next
    case (Settled rid out)
    with Cons show ?thesis by (simp add: settle_def)
  qed
qed

lemma key_error_page:
  "show_key_error page =
     page\<lparr>next_node := 1, messageList := [key_error_el], trace := [Replaced [key_error_el]]\<rparr>"
  by (simp add: show_key_error_def createElement_def emit_def page_def key_error_el_def Let_def)

lemma map_of_new_request:
  assumes "\<forall>p \<in> set xs. fst p < (n :: nat)"
  shows "map_of (xs @ [(n, c)]) n = Some c"
proof -
  have "n \<notin> fst ` set xs"
  proof
    assume "n \<in> fst ` set xs"
    then obtain p where "p \<in> set xs" "fst p = n" by auto
    with assms have "n < n" by blast
    then show False by simp
  qed
  then have "map_of xs n = None" by (simp add: map_of_eq_None_iff)
  then show ?thesis by (simp add: map_add_def)
qed

lemma main_user_view:
  "filter is_user (messageList (main E key)) = filter is_user (appends (trace (main E key)))"
proof (cases "key = None \<or> key = Some []")
  case True
  then show ?thesis
    by (auto simp add: main_def key_error_page) (simp_all add: page_def key_error_el_def is_user_def)
next
  case False
  then obtain k where "key = Some k" "k \<noteq> []" by auto
  then show ?thesis by (simp add: main_eq)
qed

lemma sample_submitted:
  "run sample_env [Typed ''hi'', Submitted] (main sample_env (Some ''k'')) =
   (main sample_env (Some ''k''))
     \<lparr>chatInput := [],
      next_node := 3,
      messageList := [loading_el 0, message_el sample_env User ''hi'' 1, loading_el 2],
      scrollTop := 120,
      awaiting := [(0, InitAwait 0), (1, SubmitAwait 2)],
      trace := [Appended (loading_el 0), Scrolled 40, Sent ''Hello'', InputSet [],
                Appended (message_el sample_env User ''hi'' 1), Scrolled 80,
                Appended (loading_el 2), Scrolled 120, Sent ''hi'']\<rparr>"
proof -
  have t: "trim ''hi'' = ''hi''" by (simp add: trim_def is_white_space_def)
  have f: "fresh ((main sample_env (Some ''k''))\<lparr>chatInput := ''hi''\<rparr>)"
    by (simp add: main_eq fresh_def)
  show ?thesis
    by (simp add: dispatch_submit_def Let_def submit_handler_eq [OF f] t)
       (simp add: main_eq sample_env_def numeral_2_eq_2 numeral_3_eq_3)
qed

section \<open>The claims\<close>

text \<open>
  C1, as the code has it. When the credential is missing (undefined or empty), the module
  shows one error element in the message list and throws, which ends its evaluation: no
  chat session is created and the submit listener is never registered. Whatever the user
  types or submits afterwards, the list keeps that one element, nothing is sent and no
  further effect occurs.
\<close>

theorem missing_credential_halts:
  assumes "key = None \<or> key = Some []"
  shows "let s = run E evs (main E key)
         in messageList s = [key_error_el] \<and>
            chat s = None \<and>
            \<not> submit_listener s \<and>
            uncaught s = Some (Thrown ''Error: API_KEY not set'') \<and>
            awaiting s = [] \<and>
            trace s = [Replaced [key_error_el]]"
proof -
  define s0 where "s0 = main E key"
  have m: "s0 = page\<lparr>next_node := 1, messageList := [key_error_el],
      trace := [Replaced [key_error_el]], uncaught := Some (Thrown ''Error: API_KEY not set'')\<rparr>"
    using assms by (auto simp add: s0_def main_def key_error_page)
  then have h: "\<not> submit_listener s0" "awaiting s0 = []" by (simp_all add: page_def)
  have "run E evs s0 = s0\<lparr>chatInput := chatInput (run E evs s0)\<rparr>"
    by (rule halted_run [OF h])
  then have "messageList (run E evs s0) = messageList s0" "chat (run E evs s0) = chat s0"
    "submit_listener (run E evs s0) = submit_listener s0" "uncaught (run E evs s0) = uncaught s0"
    "awaiting (run E evs s0) = awaiting s0" "trace (run E evs s0) = trace s0"
    by (metis app.select_convs app.surjective app.update_convs)+
  then show ?thesis
    unfolding s0_def [symmetric] Let_def by (simp add: m page_def)
qed

theorem missing_credential_halts_witness:
  "((None :: string option) = None \<or> (None :: string option) = Some []) \<and>
   messageList (run sample_env [Typed ''2+2=?'', Submitted] (main sample_env None)) =
     [key_error_el] \<and>
   trace (run sample_env [Typed ''2+2=?'', Submitted] (main sample_env None)) =
     [Replaced [key_error_el]]"
  using missing_credential_halts [of None sample_env "[Typed ''2+2=?'', Submitted]"]
  by (simp add: Let_def)

theorem missing_credential_counterexample:
  "\<not> submit_listener (main sample_env None) \<and>
   sent (trace (run sample_env [Typed ''2+2=?'', Submitted] (main sample_env None))) = []"
  by (simp add: main_def key_error_page dispatch_submit_def Let_def) (simp add: page_def)

text \<open>
  C2, as the code has it. With a credential, in every run of the page: the start-up
  appends one loading indicator and suspends \<^verbatim>\<open>initializeChat\<close> with its handle; a
  submit with a non-blank input appends one new indicator, removes none, and suspends the
  handler with the handle of that indicator. When a pending request settles, whatever the
  outcome, the indicator of its function is in the list, the step takes exactly that
  element out of the list and appends no indicator, the node is gone from the list and the
  request is no longer pending. Every call of \<^verbatim>\<open>remove()\<close> in the step is on that handle:
  one call on a fault and on a reply with text, and two on a reply without text, where
  rendering the reply throws after the first call and the \<^verbatim>\<open>catch\<close> block calls
  \<^verbatim>\<open>remove()\<close> again on the node already detached. Over the whole run no indicator is
  removed while its request is pending, a removed node is never in the list again, the
  indicators appended are exactly the removed and the pending ones, each appended once, and
  there is one for every request sent.
\<close>

theorem loading_indicator_detached_once:
  assumes "k \<noteq> []"
  shows "let s = run E evs (main E (Some k))
         in indicators (trace (main E (Some k))) = [loading_el 0] \<and>
            awaiting (main E (Some k)) = [(0, InitAwait 0)] \<and>
            (trim (chatInput s) \<noteq> [] \<longrightarrow>
               (let s' = step E Submitted s; l = loading_el (Suc (next_node s))
                in indicators (new_effects s s') = [l] \<and>
                   removals (new_effects s s') = [] \<and>
                   awaiting s' =
                     awaiting s @ [(length (sent (trace s)), SubmitAwait (node_id l))])) \<and>
            (map_of (awaiting s) rid = Some c \<longrightarrow>
               (let s' = step E (Settled rid out) s
                in loading_el (indicator c) \<in> set (messageList s) \<and>
                   butlast (messageList s') =
                     remove1 (loading_el (indicator c)) (messageList s) \<and>
                   removals (new_effects s s') =
                     (if out = Resolved None then [indicator c, indicator c]
                      else [indicator c]) \<and>
                   indicators (new_effects s s') = [] \<and>
                   indicator c \<notin> node_id ` set (messageList s') \<and>
                   map_of (awaiting s') rid = None)) \<and>
            distinct (map node_id (messageList s)) \<and>
            distinct (handles s) \<and>
            set (removals (trace s)) \<inter> set (handles s) = {} \<and>
            set (removals (trace s)) \<inter> node_id ` set (messageList s) = {} \<and>
            set (map node_id (indicators (trace s))) =
              set (removals (trace s)) \<union> set (handles s) \<and>
            distinct (map node_id (indicators (trace s))) \<and>
            length (indicators (trace s)) = length (sent (trace s))"
proof -
  define s where "s = run E evs (main E (Some k))"
  have w: "wf s" unfolding s_def by (rule reach_wf)
  then have f: "fresh s" by (simp add: wf_def)
  have l: "submit_listener s" unfolding s_def by (rule reach_listener [OF assms])
  have start: "indicators (trace (main E (Some k))) = [loading_el 0]"
    "awaiting (main E (Some k)) = [(0, InitAwait 0)]"
    by (simp_all add: main_eq [OF assms] page_def)
  have submit: "indicators (new_effects s (step E Submitted s)) = [loading_el (Suc (next_node s))] \<and>
      removals (new_effects s (step E Submitted s)) = [] \<and>
      awaiting (step E Submitted s) =
        awaiting s @ [(length (sent (trace s)), SubmitAwait (node_id (loading_el (Suc (next_node s)))))]"
    if t: "trim (chatInput s) \<noteq> []"
    using l t by (simp add: dispatch_submit_def Let_def submit_handler_eq [OF f t])
  have settled: "loading_el (indicator c) \<in> set (messageList s) \<and>
      butlast (messageList (step E (Settled rid out) s)) =
        remove1 (loading_el (indicator c)) (messageList s) \<and>
      removals (new_effects s (step E (Settled rid out) s)) =
        (if out = Resolved None then [indicator c, indicator c] else [indicator c]) \<and>
      indicators (new_effects s (step E (Settled rid out) s)) = [] \<and>
      indicator c \<notin> node_id ` set (messageList (step E (Settled rid out) s)) \<and>
      map_of (awaiting (step E (Settled rid out) s)) rid = None"
    if p: "map_of (awaiting s) rid = Some c"
  proof -
    have "map_of (filter (\<lambda>p. fst p \<noteq> rid) (awaiting s)) rid = None"
      by (auto simp add: map_of_eq_None_iff)
    moreover have "indicator c \<notin> node_id ` set (messageList (step E (Settled rid out) s))"
      using settle_gone [OF w p] by simp
    moreover have "removals (remove_calls out (indicator c)) =
        (if out = Resolved None then [indicator c, indicator c] else [indicator c])"
      by (cases "(out, indicator c)" rule: remove_calls.cases) simp_all
    ultimately show ?thesis
      using pending_indicator(1) [OF w p] by (simp add: settle_view [OF w p])
  qed
  from w have inv: "distinct (map node_id (messageList s))" "distinct (handles s)"
    "set (removals (trace s)) \<inter> set (handles s) = {}"
    "set (map node_id (indicators (trace s))) = set (removals (trace s)) \<union> set (handles s)"
    "distinct (map node_id (indicators (trace s)))"
    "length (indicators (trace s)) = length (sent (trace s))"
    by (simp_all add: wf_def)
  from w have "\<forall>h \<in> set (removals (trace s)). h \<notin> node_id ` set (messageList s)"
    by (simp add: wf_def)
  then have gone: "set (removals (trace s)) \<inter> node_id ` set (messageList s) = {}"
    by blast
  show ?thesis
    unfolding s_def [symmetric] Let_def
    using start submit settled inv gone by blast
qed

theorem loading_indicator_detached_once_witness:
  "''k'' \<noteq> [] \<and>
   trim (chatInput (run sample_env [Typed ''hi'', Submitted, Typed ''more hint'']
     (main sample_env (Some ''k'')))) \<noteq> [] \<and>
   map_of (awaiting (run sample_env [Typed ''hi'', Submitted, Typed ''more hint'']
     (main sample_env (Some ''k'')))) 1 = Some (SubmitAwait 2) \<and>
   removals (new_effects
     (run sample_env [Typed ''hi'', Submitted, Typed ''more hint''] (main sample_env (Some ''k'')))
     (step sample_env (Settled 1 (Rejected (Thrown ''Error: Network timeout'')))
       (run sample_env [Typed ''hi'', Submitted, Typed ''more hint'']
         (main sample_env (Some ''k''))))) = [2] \<and>
   butlast (messageList
     (step sample_env (Settled 1 (Rejected (Thrown ''Error: Network timeout'')))
       (run sample_env [Typed ''hi'', Submitted, Typed ''more hint'']
         (main sample_env (Some ''k''))))) =
     [loading_el 0, message_el sample_env User ''hi'' 1] \<and>
   indicators (new_effects
     (run sample_env [Typed ''hi'', Submitted, Typed ''more hint''] (main sample_env (Some ''k'')))
     (step sample_env Submitted
       (run sample_env [Typed ''hi'', Submitted, Typed ''more hint'']
         (main sample_env (Some ''k''))))) = [loading_el 4]"
proof -
  define s where
    "s = run sample_env [Typed ''hi'', Submitted, Typed ''more hint''] (main sample_env (Some ''k''))"
  define s1 where "s1 = run sample_env [Typed ''hi'', Submitted] (main sample_env (Some ''k''))"
  have e: "s = s1\<lparr>chatInput := ''more hint''\<rparr>"
    unfolding s_def s1_def by simp
  note sample_submitted = sample_submitted [folded s1_def]
  have h1: "''k'' \<noteq> []" by simp
  have h2: "trim (chatInput s) \<noteq> []"
    by (simp add: e trim_def is_white_space_def)
  have h3: "map_of (awaiting s) 1 = Some (SubmitAwait 2)"
    by (simp add: e sample_submitted)
  have n: "next_node s = 3"
    "messageList s = [loading_el 0, message_el sample_env User ''hi'' 1, loading_el 2]"
    by (simp_all add: e sample_submitted)
  have r: "remove1 (loading_el 2) [loading_el 0, message_el sample_env User ''hi'' 1, loading_el 2] =
      [loading_el 0, message_el sample_env User ''hi'' 1]"
    by (simp add: loading_el_def message_el_def)
  from loading_indicator_detached_once [OF h1, of sample_env
      "[Typed ''hi'', Submitted, Typed ''more hint'']"
      1 "SubmitAwait 2" "Rejected (Thrown ''Error: Network timeout'')"]
  have "removals (new_effects s
          (step sample_env (Settled 1 (Rejected (Thrown ''Error: Network timeout''))) s)) = [2] \<and>
        butlast (messageList
          (step sample_env (Settled 1 (Rejected (Thrown ''Error: Network timeout''))) s)) =
          [loading_el 0, message_el sample_env User ''hi'' 1] \<and>
        indicators (new_effects s (step sample_env Submitted s)) = [loading_el 4]"
    unfolding s_def [symmetric] Let_def using h2 h3 n r by simp
  with h1 h2 h3 show ?thesis unfolding s_def by blast
qed

theorem loading_indicator_removed_twice:
  "removals (new_effects (main sample_env (Some ''k''))
     (step sample_env (Settled 0 (Resolved None)) (main sample_env (Some ''k'')))) = [0, 0]"
proof -
  have w: "wf (main sample_env (Some ''k''))" by (rule wf_main)
  have p: "map_of (awaiting (main sample_env (Some ''k''))) 0 = Some (InitAwait 0)"
    by (simp add: main_eq)
  show ?thesis by (simp add: settle_view [OF w p])
qed

text \<open>
  C3. With a credential, in every run of the page, a submit whose trimmed input is not
  empty has exactly these effects, in this order: the input field is cleared, the user
  message is appended (and scrolled to), the loading indicator is appended (and scrolled
  to), the trimmed text is sent. One user-role element is appended, its content the
  Markdown rendering of the trimmed text; and when the step ends the field is empty while
  the request is still pending.
\<close>

theorem submit_appends_user_message:
  assumes "k \<noteq> []" "trim (chatInput (run E evs (main E (Some k)))) \<noteq> []"
  shows "let s = run E evs (main E (Some k));
             t = trim (chatInput s);
             u = message_el E User t (next_node s);
             l = loading_el (Suc (next_node s));
             s' = step E Submitted s
         in new_effects s s' =
              [InputSet [],
               Appended u, Scrolled (scrollHeight E (messageList s @ [u])),
               Appended l, Scrolled (scrollHeight E (messageList s @ [u, l])),
               Sent t] \<and>
            filter is_user (appends (new_effects s s')) = [u] \<and>
            classList u = [''message'', ''user-message''] \<and>
            innerHTML u = marked_parse E t \<and>
            messageList s' = messageList s @ [u, l] \<and>
            chatInput s' = [] \<and>
            map_of (awaiting s') (length (sent (trace s))) = Some (SubmitAwait (node_id l))"
proof -
  define s where "s = run E evs (main E (Some k))"
  have w: "wf s" unfolding s_def by (rule reach_wf)
  then have f: "fresh s" by (simp add: wf_def)
  have l: "submit_listener s" unfolding s_def by (rule reach_listener [OF assms(1)])
  have t: "trim (chatInput s) \<noteq> []" using assms(2) by (simp add: s_def)
  from w have "\<forall>p \<in> set (awaiting s). fst p < length (sent (trace s))" by (simp add: wf_def)
  note p = map_of_new_request [OF this]
  show ?thesis
    unfolding s_def [symmetric] Let_def
    using l t by (simp add: dispatch_submit_def Let_def submit_handler_eq [OF f t] p del: map_of_append)
qed

theorem submit_appends_user_message_witness:
  "''k'' \<noteq> [] \<and>
   trim (chatInput (run sample_env [Typed '' 2+2=? ''] (main sample_env (Some ''k'')))) \<noteq> [] \<and>
   messageList (step sample_env Submitted
      (run sample_env [Typed '' 2+2=? ''] (main sample_env (Some ''k'')))) =
     [loading_el 0, message_el sample_env User ''2+2=?'' 1, loading_el 2] \<and>
   chatInput (step sample_env Submitted
      (run sample_env [Typed '' 2+2=? ''] (main sample_env (Some ''k'')))) = []"
proof -
  have h1: "''k'' \<noteq> []" by simp
  have t: "trim '' 2+2=? '' = ''2+2=?''" by (simp add: trim_def is_white_space_def)
  have h2: "trim (chatInput (run sample_env [Typed '' 2+2=? ''] (main sample_env (Some ''k'')))) \<noteq> []"
    by (simp add: t)
  from submit_appends_user_message [OF h1 h2] h2 show ?thesis
    by (simp add: Let_def main_eq t numeral_2_eq_2)
qed

text \<open>
  C4. Submitting an input that is empty or consists of white space only appends no message
  and issues no request: the page, its effects included, is exactly what it was, and the
  input field keeps its value. All the handler did is call \<^verbatim>\<open>preventDefault\<close> on the
  event.
\<close>

theorem blank_submit_no_effect:
  assumes "list_all is_white_space (chatInput s)"
  shows "submit_handler E e s = (e\<lparr>defaultPrevented := True\<rparr>, s) \<and> step E Submitted s = s"
proof -
  have "trim (chatInput s) = []"
    using assms by (simp add: trim_blank list_all_iff)
  then show ?thesis
    by (simp add: dispatch_submit_def Let_def submit_handler_blank)
qed

theorem blank_submit_no_effect_witness:
  "list_all is_white_space
     (chatInput (step sample_env (Typed [CHR '' '', CHR 0x09, CHR 0xA0])
        (main sample_env (Some ''k'')))) \<and>
   step sample_env Submitted
     (step sample_env (Typed [CHR '' '', CHR 0x09, CHR 0xA0]) (main sample_env (Some ''k''))) =
   step sample_env (Typed [CHR '' '', CHR 0x09, CHR 0xA0]) (main sample_env (Some ''k''))"
proof -
  have h: "list_all is_white_space
     (chatInput (step sample_env (Typed [CHR '' '', CHR 0x09, CHR 0xA0])
        (main sample_env (Some ''k''))))"
    by (simp add: is_white_space_def)
  from blank_submit_no_effect [OF h] h show ?thesis by blast
qed

text \<open>
  C5. In every run of the page, when a pending request settles with a reply that has a
  text, the step appends exactly one element: a model-role message whose content is the
  Markdown rendering of the reply text. It takes the place of the indicator at the end of
  the list.
\<close>

theorem reply_rendered_as_markdown:
  assumes "map_of (awaiting (run E evs (main E key))) rid = Some c"
  shows "let s = run E evs (main E key);
             s' = step E (Settled rid (Resolved (Some text))) s;
             m = message_el E Model text (next_node s)
         in appends (new_effects s s') = [m] \<and>
            messageList s' = remove1 (loading_el (indicator c)) (messageList s) @ [m] \<and>
            classList m = [''message'', ''model-message''] \<and>
            innerHTML m = marked_parse E text"
proof -
  have w: "wf (run E evs (main E key))" by (rule reach_wf)
  show ?thesis
    by (simp add: Let_def settle_view [OF w assms])
qed

theorem reply_rendered_as_markdown_witness:
  "map_of (awaiting (run sample_env [Typed ''hi'', Submitted] (main sample_env (Some ''k'')))) 1 =
     Some (SubmitAwait 2) \<and>
   messageList (step sample_env (Settled 1 (Resolved (Some ''**Hint 1:** add'')))
     (run sample_env [Typed ''hi'', Submitted] (main sample_env (Some ''k'')))) =
     [loading_el 0, message_el sample_env User ''hi'' 1,
      \<lparr>node_id = 3, classList = [''message'', ''model-message''],
       innerHTML = ''<p>**Hint 1:** add</p>''\<rparr>]"
proof -
  define s1 where "s1 = run sample_env [Typed ''hi'', Submitted] (main sample_env (Some ''k''))"
  note ss = sample_submitted [folded s1_def]
  have h: "map_of (awaiting s1) 1 = Some (SubmitAwait 2)" by (simp add: ss)
  from reply_rendered_as_markdown [of sample_env "[Typed ''hi'', Submitted]" "Some ''k''" 1
      "SubmitAwait 2" "''**Hint 1:** add''", folded s1_def, OF h]
  have "messageList (step sample_env (Settled 1 (Resolved (Some ''**Hint 1:** add''))) s1) =
      remove1 (loading_el 2) (messageList s1) @
      [message_el sample_env Model ''**Hint 1:** add'' (next_node s1)]"
    unfolding Let_def by simp
  then have "messageList (step sample_env (Settled 1 (Resolved (Some ''**Hint 1:** add''))) s1) =
     [loading_el 0, message_el sample_env User ''hi'' 1,
      \<lparr>node_id = 3, classList = [''message'', ''model-message''],
       innerHTML = ''<p>**Hint 1:** add</p>''\<rparr>]"
    by (simp add: ss) (simp add: message_el_def loading_el_def sample_env_def)
  with h show ?thesis unfolding s1_def by blast
qed

text \<open>
  C6. In every run of the page, when the request of a submit handler settles with a fault,
  the step appends exactly one element, last in the list: a model-role message rendered
  from the Markdown source that puts the fault's string between two runs of three
  backticks after the fixed text. The indicator of that submission is no longer in the
  list, and the fault itself is passed to \<^verbatim>\<open>console.error\<close>.
\<close>

theorem submit_failure_reported:
  assumes "map_of (awaiting (run E evs (main E key))) rid = Some (SubmitAwait h)"
  shows "let s = run E evs (main E key);
             s' = step E (Settled rid (Rejected error)) s;
             m = last (messageList s')
         in appends (new_effects s s') = [m] \<and>
            classList m = [''message'', ''model-message''] \<and>
            innerHTML m = marked_parse E
              (''**Error:** Something went wrong. Please try again. '' @ [LF, LF] @
               ''```'' @ to_string error @ ''```'') \<and>
            h \<notin> node_id ` set (messageList s') \<and>
            console (new_effects s s') = [error]"
proof -
  have w: "wf (run E evs (main E key))" by (rule reach_wf)
  from settle_gone [OF w assms]
  have "h \<notin> node_id ` set (messageList (settle E rid (Rejected error) (run E evs (main E key))))"
    by simp
  then show ?thesis
    by (simp add: Let_def settle_view [OF w assms] submit_error_text_def)
qed

theorem submit_failure_reported_witness:
  "map_of (awaiting (run sample_env [Typed ''hi'', Submitted] (main sample_env (Some ''k'')))) 1 =
     Some (SubmitAwait 2) \<and>
   innerHTML (last (messageList (step sample_env (Settled 1 (Rejected (Thrown ''Network timeout'')))
     (run sample_env [Typed ''hi'', Submitted] (main sample_env (Some ''k'')))))) =
     ''<p>**Error:** Something went wrong. Please try again. '' @ [LF, LF] @
     ''```Network timeout```</p>'' \<and>
   console (new_effects (run sample_env [Typed ''hi'', Submitted] (main sample_env (Some ''k'')))
     (step sample_env (Settled 1 (Rejected (Thrown ''Network timeout'')))
       (run sample_env [Typed ''hi'', Submitted] (main sample_env (Some ''k''))))) =
     [Thrown ''Network timeout'']"
proof -
  define s1 where "s1 = run sample_env [Typed ''hi'', Submitted] (main sample_env (Some ''k''))"
  note ss = sample_submitted [folded s1_def]
  have h: "map_of (awaiting s1) 1 = Some (SubmitAwait 2)" by (simp add: ss)
  from submit_failure_reported [of sample_env "[Typed ''hi'', Submitted]" "Some ''k''" 1 2
      "Thrown ''Network timeout''", folded s1_def, OF h]
  have "innerHTML (last (messageList (step sample_env (Settled 1 (Rejected (Thrown ''Network timeout''))) s1))) =
     ''<p>**Error:** Something went wrong. Please try again. '' @ [LF, LF] @
     ''```Network timeout```</p>'' \<and>
     console (new_effects s1 (step sample_env (Settled 1 (Rejected (Thrown ''Network timeout''))) s1)) =
     [Thrown ''Network timeout'']"
    unfolding Let_def by (simp add: sample_env_def)
  with h show ?thesis unfolding s1_def by blast
qed

text \<open>
  C7. With a credential, the module creates the chat session and, before any event, sends
  ''Hello'' behind one loading indicator. In every run the messages sent are ''Hello''
  followed by the user's non-blank submissions, in order. When the first request settles,
  whatever the outcome, the list holds exactly one element, the model message with the
  reply or the error text. The submit listener stays registered in every run, a failed
  first exchange included, so that later submissions are taken.
\<close>

theorem startup_sends_hello:
  assumes "k \<noteq> []"
  shows "let s0 = main E (Some k);
             s1 = step E (Settled 0 out) s0
         in chat s0 \<noteq> None \<and>
            trace s0 =
              [Appended (loading_el 0), Scrolled (scrollHeight E [loading_el 0]), Sent ''Hello''] \<and>
            sent (trace (run E evs s0)) = ''Hello'' # submissions evs [] \<and>
            messageList s1 =
              [message_el E Model (reply_text E (InitAwait 0) out) (reply_node out 1)] \<and>
            appends (new_effects s0 s1) =
              [message_el E Model (reply_text E (InitAwait 0) out) (reply_node out 1)] \<and>
            submit_listener (run E evs s0)"
proof -
  define s0 where "s0 = main E (Some k)"
  have w: "wf s0" unfolding s0_def by (rule wf_main)
  have l: "submit_listener s0" by (simp add: s0_def main_eq [OF assms])
  have p: "map_of (awaiting s0) 0 = Some (InitAwait 0)"
    by (simp add: s0_def main_eq [OF assms])
  have a: "sent (trace (run E evs s0)) = ''Hello'' # submissions evs []"
    unfolding sent_run [OF w l] by (simp add: s0_def main_eq [OF assms] page_def)
  have b: "submit_listener (run E evs s0)"
    unfolding s0_def by (rule reach_listener [OF assms])
  have c: "messageList s0 = [loading_el 0]" "next_node s0 = 1"
    "trace s0 = [Appended (loading_el 0), Scrolled (scrollHeight E [loading_el 0]), Sent ''Hello'']"
    "chat s0 \<noteq> None"
    by (simp_all add: s0_def main_eq [OF assms])
  have d: "appends (new_effects s0 (step E (Settled 0 out) s0)) =
      [message_el E Model (reply_text E (InitAwait 0) out) (reply_node out (next_node s0))]"
    by (simp add: settle_view [OF w p])
  have e: "messageList (step E (Settled 0 out) s0) =
      remove1 (loading_el 0) (messageList s0) @
      [message_el E Model (reply_text E (InitAwait 0) out) (reply_node out (next_node s0))]"
    by (simp add: settle_view [OF w p])
  show ?thesis
    unfolding s0_def [symmetric] Let_def d e
    using a b c by simp
qed

theorem startup_sends_hello_witness:
  "''k'' \<noteq> [] \<and>
   sent (trace (run sample_env
      [Settled 0 (Rejected (Thrown ''Error: Network timeout'')), Typed '' 2+2=? '', Submitted]
      (main sample_env (Some ''k'')))) = [''Hello'', ''2+2=?''] \<and>
   messageList (step sample_env (Settled 0 (Rejected (Thrown ''Error: Network timeout'')))
      (main sample_env (Some ''k''))) =
     [\<lparr>node_id = 1, classList = [''message'', ''model-message''],
       innerHTML = ''<p>**Error:** Could not initialize chat. '' @ [LF, LF] @
         ''```Error: Network timeout```</p>''\<rparr>]"
proof -
  have h: "''k'' \<noteq> []" by simp
  have t: "trim '' 2+2=? '' = ''2+2=?''" by (simp add: trim_def is_white_space_def)
  from startup_sends_hello [OF h, of sample_env "Rejected (Thrown ''Error: Network timeout'')"
      "[Settled 0 (Rejected (Thrown ''Error: Network timeout'')), Typed '' 2+2=? '', Submitted]"]
  have "sent (trace (run sample_env
      [Settled 0 (Rejected (Thrown ''Error: Network timeout'')), Typed '' 2+2=? '', Submitted]
      (main sample_env (Some ''k'')))) = [''Hello'', ''2+2=?'']"
    and "messageList (step sample_env (Settled 0 (Rejected (Thrown ''Error: Network timeout'')))
      (main sample_env (Some ''k''))) =
      [message_el sample_env Model
        (reply_text sample_env (InitAwait 0) (Rejected (Thrown ''Error: Network timeout''))) 1]"
    unfolding Let_def by (simp_all add: t)
  with h show ?thesis
    by (simp add: message_el_def init_error_text_def sample_env_def)
qed

text \<open>
  C8. In every run of the page, when a pending request (of the submit handler or of
  \<^verbatim>\<open>initializeChat\<close>) settles with a fault, the list of distinct elements loses exactly the
  indicator of that request and gains the error message at its end; every other element
  stays, in place and unchanged. The input field keeps its value, and the effects of the
  step are the removal, the append with its scroll, and the log entry.
\<close>

theorem failure_keeps_messages:
  assumes "map_of (awaiting (run E evs (main E key))) rid = Some c"
  shows "let s = run E evs (main E key);
             s' = step E (Settled rid (Rejected error)) s;
             m = message_el E Model (reply_text E c (Rejected error)) (next_node s)
         in distinct (messageList s) \<and>
            loading_el (indicator c) \<in> set (messageList s) \<and>
            messageList s' = remove1 (loading_el (indicator c)) (messageList s) @ [m] \<and>
            chatInput s' = chatInput s \<and>
            new_effects s s' =
              [Removed (indicator c), Appended m, Scrolled (scrollHeight E (messageList s')),
               Logged error]"
proof -
  have w: "wf (run E evs (main E key))" by (rule reach_wf)
  then have "distinct (map node_id (messageList (run E evs (main E key))))"
    by (simp add: wf_def)
  then have d: "distinct (messageList (run E evs (main E key)))"
    by (rule distinct_map [THEN iffD1, THEN conjunct1])
  from d pending_indicator(1) [OF w assms] show ?thesis
    by (simp add: Let_def settle_view [OF w assms])
qed

theorem failure_keeps_messages_witness:
  "map_of (awaiting (run sample_env [Typed ''hi'', Submitted] (main sample_env (Some ''k'')))) 1 =
     Some (SubmitAwait 2) \<and>
   messageList (run sample_env [Typed ''hi'', Submitted] (main sample_env (Some ''k''))) =
     [loading_el 0, message_el sample_env User ''hi'' 1, loading_el 2] \<and>
   messageList (step sample_env (Settled 1 (Rejected (Thrown ''Network timeout'')))
     (run sample_env [Typed ''hi'', Submitted] (main sample_env (Some ''k'')))) =
     [loading_el 0, message_el sample_env User ''hi'' 1,
      message_el sample_env Model (submit_error_text (Thrown ''Network timeout'')) 3]"
proof -
  define s1 where "s1 = run sample_env [Typed ''hi'', Submitted] (main sample_env (Some ''k''))"
  note ss = sample_submitted [folded s1_def]
  have h: "map_of (awaiting s1) 1 = Some (SubmitAwait 2)" by (simp add: ss)
  have m: "messageList s1 = [loading_el 0, message_el sample_env User ''hi'' 1, loading_el 2]"
    by (simp add: ss)
  from failure_keeps_messages [of sample_env "[Typed ''hi'', Submitted]" "Some ''k''" 1
      "SubmitAwait 2" "Thrown ''Network timeout''", folded s1_def, OF h]
  have "messageList (step sample_env (Settled 1 (Rejected (Thrown ''Network timeout''))) s1) =
      remove1 (loading_el 2) (messageList s1) @
      [message_el sample_env Model
        (reply_text sample_env (SubmitAwait 2) (Rejected (Thrown ''Network timeout'')))
        (next_node s1)]"
    unfolding Let_def by simp
  then have "messageList (step sample_env (Settled 1 (Rejected (Thrown ''Network timeout''))) s1) =
     [loading_el 0, message_el sample_env User ''hi'' 1,
      message_el sample_env Model (submit_error_text (Thrown ''Network timeout'')) 3]"
    by (simp add: ss) (simp add: message_el_def loading_el_def)
  with h m show ?thesis unfolding s1_def by blast
qed

text \<open>
  C9. With a credential, the start-up sends ''Hello'' and appends no user-role element. In
  every run, the user-role elements in the list are the user-role elements ever appended,
  and their contents are the Markdown renderings of the user's non-blank submissions, one
  for one and in order.
\<close>

theorem hello_never_rendered:
  assumes "k \<noteq> []"
  shows "let s = run E evs (main E (Some k))
         in sent (trace (main E (Some k))) = [''Hello''] \<and>
            filter is_user (appends (trace (main E (Some k)))) = [] \<and>
            filter is_user (appends (trace s)) = filter is_user (messageList s) \<and>
            map innerHTML (filter is_user (messageList s)) =
              map (marked_parse E) (submissions evs [])"
proof -
  define s0 where "s0 = main E (Some k)"
  have w: "wf s0" unfolding s0_def by (rule wf_main)
  have l: "submit_listener s0" by (simp add: s0_def main_eq [OF assms])
  have c: "sent (trace s0) = [''Hello'']" "filter is_user (appends (trace s0)) = []"
    "filter is_user (messageList s0) = []" "chatInput s0 = []"
    by (simp_all add: s0_def main_eq [OF assms] page_def)
  have v: "filter is_user (messageList s0) = filter is_user (appends (trace s0))"
    unfolding s0_def by (rule main_user_view)
  show ?thesis
    unfolding s0_def [symmetric] Let_def
    using c user_view_run [OF w v, of E evs, symmetric] user_run [OF w l, of E evs] by simp
qed

theorem hello_never_rendered_witness:
  "''k'' \<noteq> [] \<and>
   map innerHTML (filter is_user (messageList (run sample_env
      [Settled 0 (Resolved (Some ''Welcome'')), Typed ''   '', Submitted, Typed '' 2+2=? '', Submitted]
      (main sample_env (Some ''k''))))) = [''<p>2+2=?</p>'']"
proof -
  have h: "''k'' \<noteq> []" by simp
  have t: "trim '' 2+2=? '' = ''2+2=?''" "trim ''   '' = []"
    by (simp_all add: trim_def is_white_space_def)
  from hello_never_rendered [OF h, of sample_env
      "[Settled 0 (Resolved (Some ''Welcome'')), Typed ''   '', Submitted, Typed '' 2+2=? '', Submitted]"]
  have "map innerHTML (filter is_user (messageList (run sample_env
      [Settled 0 (Resolved (Some ''Welcome'')), Typed ''   '', Submitted, Typed '' 2+2=? '', Submitted]
      (main sample_env (Some ''k''))))) = map (marked_parse sample_env) [''2+2=?'']"
    unfolding Let_def by (simp add: t del: run.simps)
  with h show ?thesis by (simp add: sample_env_def)
qed

text \<open>
  C10. Both append operations scroll the list to its end: \<^verbatim>\<open>renderMessage\<close> on a string
  and \<^verbatim>\<open>renderLoadingIndicator\<close> each leave the new element last in the list and
  \<^verbatim>\<open>scrollTop\<close> at the \<^verbatim>\<open>scrollHeight\<close> of the list with the new element in it;
  \<^verbatim>\<open>renderMessage\<close> on an undefined text appends nothing; and in every run of the page,
  whatever the credential and the events, each append is directly followed by that scroll.
\<close>

theorem append_scrolls:
  "Inr (last (messageList (snd (renderMessage E r (Some text) s)))) =
     fst (renderMessage E r (Some text) s) \<and>
   scrollTop (snd (renderMessage E r (Some text) s)) =
     scrollHeight E (messageList (snd (renderMessage E r (Some text) s))) \<and>
   messageList (snd (renderMessage E r None s)) = messageList s \<and>
   trace (snd (renderMessage E r None s)) = trace s \<and>
   last (messageList (snd (renderLoadingIndicator E s))) = fst (renderLoadingIndicator E s) \<and>
   scrollTop (snd (renderLoadingIndicator E s)) =
     scrollHeight E (messageList (snd (renderLoadingIndicator E s))) \<and>
   scrolls_after_append (trace (run E evs (main E key)))"
proof -
  have "scrolls_after_append (trace (run E evs (main E key)))"
    by (rule scrolls_run [OF wf_main scrolls_main])
  then show ?thesis
    by (simp add: renderMessage_def parse_def renderLoadingIndicator_def createElement_def
        appendChild_def scroll_to_end_def emit_def Let_def)
qed

end
